theory Spec2Isabelle
  imports Main "HOL-Library.Word"
begin

section \<open>Serving a Stable Diffusion model: the server side\<close>

text \<open>
  The serving template defines two deployments: \<^verbatim>\<open>StableDiffusionV2\<close>, the replica that owns
  the loaded pipeline, and \<^verbatim>\<open>APIIngress\<close>, the endpoint living at \<^verbatim>\<open>/imagine\<close>. Python
  exceptions are values of the type \<open>exn\<close>; a call that can raise returns \<open>exn + 'a\<close>,
  with \<open>Inl\<close> for the exception.
\<close>

type_synonym byte = "8 word"

datatype exn =
    AssertionError string
  | IndexError
  | FileExistsError string
  | LibraryError string

text \<open>A generated picture, as far as the template looks at it: its size and its data.\<close>

record image =
  img_height :: int
  img_width :: int
  pixels :: "byte list"

text \<open>
  The replica. \<open>pipe\<close> is the loaded pipeline \<^verbatim>\<open>self.pipe\<close>: called with a prompt, a height
  and a width it yields the list \<^verbatim>\<open>.images\<close> or raises. Its first argument is the number
  of earlier pipeline calls on this replica, since every image starts from fresh noise.
  The two logs record what reached the replica: the calls of \<^verbatim>\<open>generate\<close> and the calls
  of the pipeline.
\<close>

record StableDiffusionV2 =
  pipe :: "nat \<Rightarrow> string \<Rightarrow> int \<Rightarrow> int \<Rightarrow> exn + image list"
  generate_calls :: "(string \<times> int) list"
  pipe_calls :: "(string \<times> int \<times> int) list"

text \<open>A keyword parameter with a default value: \<open>None\<close> when the caller omits it.\<close>

definition or_default :: "int option \<Rightarrow> int \<Rightarrow> int" where
  "or_default arg d = (case arg of None \<Rightarrow> d | Some v \<Rightarrow> v)"

text \<open>
  \<^verbatim>\<open>
  def generate(self, prompt: str, img_size: int = 776):
      assert len(prompt), "prompt parameter cannot be empty"
      image = self.pipe(prompt, height=img_size, width=img_size).images[0]
      return image
  \<close>
\<close>

definition StableDiffusionV2_generate ::
  "StableDiffusionV2 \<Rightarrow> string \<Rightarrow> int option \<Rightarrow> (exn + image) \<times> StableDiffusionV2" where
  "StableDiffusionV2_generate self prompt img_size_arg =
     (let img_size = or_default img_size_arg 776;
          self1 = self\<lparr>generate_calls := generate_calls self @ [(prompt, img_size)]\<rparr>
      in if length prompt = 0
         then (Inl (AssertionError ''prompt parameter cannot be empty''), self1)
         else
           (let self2 = self1\<lparr>pipe_calls := pipe_calls self1 @ [(prompt, img_size, img_size)]\<rparr>
            in case pipe self (length (pipe_calls self)) prompt img_size img_size of
                 Inl e \<Rightarrow> (Inl e, self2)
               | Inr images \<Rightarrow>
                   (case images of
                      [] \<Rightarrow> (Inl IndexError, self2)
                    | im # _ \<Rightarrow> (Inr im, self2))))"

text \<open>The HTTP answer built by the endpoint: \<^verbatim>\<open>Response(content=..., media_type=...)\<close>.\<close>

record response =
  content :: "byte list"
  media_type :: string

text \<open>
  The endpoint holds the handle of the replica deployment; the handle is modelled by the
  replica that serves the forwarded call.
\<close>

record APIIngress =
  handle :: StableDiffusionV2

text \<open>
  \<^verbatim>\<open>
  async def generate(self, prompt: str, img_size: int = 776):
      assert len(prompt), "prompt parameter cannot be empty"
      image = await (await self.handle.generate.remote(prompt, img_size=img_size))
      file_stream = BytesIO()
      image.save(file_stream, "PNG")
      return Response(content=file_stream.getvalue(), media_type="image/png")
  \<close>
  \<open>image_save\<close> is the imaging library's \<^verbatim>\<open>image.save(stream, format)\<close>: it yields the bytes
  written to the stream, or raises.
\<close>

definition APIIngress_generate ::
  "(image \<Rightarrow> string \<Rightarrow> exn + byte list) \<Rightarrow> APIIngress \<Rightarrow> string \<Rightarrow> int option
     \<Rightarrow> (exn + response) \<times> APIIngress" where
  "APIIngress_generate image_save self prompt img_size_arg =
     (let img_size = or_default img_size_arg 776
      in if length prompt = 0
         then (Inl (AssertionError ''prompt parameter cannot be empty''), self)
         else
           (case StableDiffusionV2_generate (handle self) prompt (Some img_size) of
              (Inl e, replica) \<Rightarrow> (Inl e, self\<lparr>handle := replica\<rparr>)
            | (Inr im, replica) \<Rightarrow>
                (case image_save im ''PNG'' of
                   Inl e \<Rightarrow> (Inl e, self\<lparr>handle := replica\<rparr>)
                 | Inr file_stream \<Rightarrow>
                     (Inr \<lparr>content = file_stream, media_type = ''image/png''\<rparr>,
                      self\<lparr>handle := replica\<rparr>))))"

section \<open>The client: fanning out requests as Ray tasks\<close>

text \<open>
  The values of a query parameter dictionary, such as
  \<^verbatim>\<open>{"prompt": prompt, "img_size": IMAGE_SIZE}\<close>.
\<close>

datatype param = StrParam string | IntParam int

text \<open>The answer object of the HTTP client library, as far as the template reads it.\<close>

record http_reply =
  reply_content :: "byte list"
  status_code :: nat

text \<open>
  What the client does to the world, in the order it happens: a task submitted to the
  runtime (its id and its argument), an HTTP GET issued by a task (the task's id, the URL,
  the parameters and what came back), a directory created, a file written.
\<close>

datatype effect =
    Remote nat string
  | HttpGet nat string "(string \<times> param) list" "exn + http_reply"
  | MakeDirs string
  | WriteFile string "byte list"

text \<open>
  The notebook's global settings and its surroundings. \<open>requests_get\<close> is the HTTP client
  library's \<^verbatim>\<open>requests.get(url, params=...)\<close>, run against a server in some state: it
  yields the answer, or raises, and leaves the server in a new state. \<open>took\<close> says how
  many clock ticks each effect lasts.
\<close>

record 'srv env =
  port :: nat
  IMAGE_SIZE :: int
  NUM_IMAGES_PER_PROMPT :: int
  requests_get :: "'srv \<Rightarrow> string \<Rightarrow> (string \<times> param) list \<Rightarrow> (exn + http_reply) \<times> 'srv"
  took :: "effect \<Rightarrow> nat"

text \<open>
  The values the notebook gives its settings; the smoke test overrides three of them.
  \<^verbatim>\<open>
  NUM_REPLICAS: int = 4
  IMAGE_SIZE: int = 776
  if SMOKE_TEST:
      NUM_REPLICAS: int = 1
      IMAGE_SIZE: int = 256
  port = 8000
  NUM_IMAGES_PER_PROMPT: int = NUM_REPLICAS
  \<close>
\<close>

definition NUM_REPLICAS :: "bool \<Rightarrow> int" where
  "NUM_REPLICAS SMOKE_TEST = (if SMOKE_TEST then 1 else 4)"

definition notebook_settings ::
  "bool \<Rightarrow> ('srv \<Rightarrow> string \<Rightarrow> (string \<times> param) list \<Rightarrow> (exn + http_reply) \<times> 'srv)
     \<Rightarrow> (effect \<Rightarrow> nat) \<Rightarrow> 'srv env" where
  "notebook_settings SMOKE_TEST get lasts =
     \<lparr>port = 8000, IMAGE_SIZE = (if SMOKE_TEST then 256 else 776),
      NUM_IMAGES_PER_PROMPT = NUM_REPLICAS SMOKE_TEST, requests_get = get, took = lasts\<rparr>"

text \<open>
  The world the client runs in: the server behind the endpoint, the runtime's table of
  tasks (the argument of each submitted task and, once it has run, its result; an object
  reference is an index into the table), the directories created and the files written,
  and the journal of effects so far.
\<close>

record 'srv world =
  server :: 'srv
  tasks :: "(string \<times> (exn + byte list) option) list"
  dirs :: "string list"
  files :: "(string \<times> byte list) list"
  journal :: "effect list"

text \<open>Decimal digits of a natural number, as an f-string prints it.\<close>

definition digit :: "nat \<Rightarrow> char" where
  "digit d = ''0123456789'' ! d"

function str_nat :: "nat \<Rightarrow> string" where
  "str_nat n = (if n < 10 then [digit n] else str_nat (n div 10) @ [digit (n mod 10)])"
  by pat_completeness auto
termination
  by (relation "measure id") auto

declare str_nat.simps [simp del]

text \<open>\<^verbatim>\<open>endpoint = f"http://localhost:{port}/imagine"\<close>\<close>

definition endpoint :: "'srv env \<Rightarrow> string" where
  "endpoint env = ''http://localhost:'' @ str_nat (port env) @ ''/imagine''"

text \<open>\<^verbatim>\<open>time.time()\<close>: the clock has advanced by what the effects so far took.\<close>

definition time_time :: "'srv env \<Rightarrow> 'srv world \<Rightarrow> int" where
  "time_time env w = int (sum_list (map (took env) (journal w)))"

text \<open>
  \<^verbatim>\<open>
  @ray.remote(num_cpus=1)
  def generate_image(prompt):
      req = {"prompt": prompt, "img_size": IMAGE_SIZE}
      resp = requests.get(endpoint, params=req)
      return resp.content
  \<close>
  The first argument after the environment is the id of the task that runs the function;
  it only labels the journal entry.
\<close>

definition generate_image ::
  "'srv env \<Rightarrow> nat \<Rightarrow> 'srv world \<Rightarrow> string \<Rightarrow> (exn + byte list) \<times> 'srv world" where
  "generate_image env tid w prompt =
     (let req = [(''prompt'', StrParam prompt), (''img_size'', IntParam (IMAGE_SIZE env))];
          (resp, srv) = requests_get env (server w) (endpoint env) req;
          w' = w\<lparr>server := srv,
                 journal := journal w @ [HttpGet tid (endpoint env) req resp]\<rparr>
      in case resp of
           Inl e \<Rightarrow> (Inl e, w')
         | Inr r \<Rightarrow> (Inr (reply_content r), w'))"

text \<open>
  Modelled from the spec: the runtime's task primitives \<^verbatim>\<open>f.remote(...)\<close> and
  \<^verbatim>\<open>ray.get(refs)\<close>, which the notebook calls and which are not part of the sources at
  hand ("\<^verbatim>\<open>submit\<close> returns a handle whose result is retrieved through an explicit
  await/poll operation"; "ordered sequence of outputs (or first encountered error)").

  \<open>ray_remote\<close> enters a task into the table without running it and returns its
  reference. \<open>run_task\<close> lets the runtime run one pending task to its end; a reference
  that is unknown or already finished is left alone. The order in which the runtime runs
  tasks is not the client's choice: it is the schedule, a list of references.
\<close>

definition ray_remote :: "'srv world \<Rightarrow> string \<Rightarrow> nat \<times> 'srv world" where
  "ray_remote w prompt =
     (length (tasks w),
      w\<lparr>tasks := tasks w @ [(prompt, None)],
        journal := journal w @ [Remote (length (tasks w)) prompt]\<rparr>)"

definition run_task :: "'srv env \<Rightarrow> nat \<Rightarrow> 'srv world \<Rightarrow> 'srv world" where
  "run_task env i w =
     (if i < length (tasks w)
      then (case tasks w ! i of
              (prompt, None) \<Rightarrow>
                (let (r, w') = generate_image env i w prompt
                 in w'\<lparr>tasks := (tasks w')[i := (prompt, Some r)]\<rparr>)
            | (prompt, Some r) \<Rightarrow> w)
      else w)"

definition run_tasks :: "'srv env \<Rightarrow> nat list \<Rightarrow> 'srv world \<Rightarrow> 'srv world" where
  "run_tasks env sched w = fold (run_task env) sched w"

text \<open>The result of a task, if the reference is known and the task has finished.\<close>

definition result_of :: "'srv world \<Rightarrow> nat \<Rightarrow> (exn + byte list) option" where
  "result_of w i = (if i < length (tasks w) then snd (tasks w ! i) else None)"

text \<open>
  The values of a list of finished tasks, in the order of the list; the first task in that
  order that raised makes the whole retrieval raise.
\<close>

fun collect :: "(exn + 'a) list \<Rightarrow> exn + 'a list" where
  "collect [] = Inr []"
| "collect (Inl e # rs) = Inl e"
| "collect (Inr v # rs) = (case collect rs of Inl e \<Rightarrow> Inl e | Inr vs \<Rightarrow> Inr (v # vs))"

text \<open>
  \<open>ray_get\<close> returns as soon as every referenced task has finished; until then the runtime
  goes on running tasks by its schedule. No timeout is given, so when the schedule ends
  with a referenced task still pending the call never returns: that is \<open>None\<close>.
\<close>

fun ray_get ::
  "'srv env \<Rightarrow> nat list \<Rightarrow> nat list \<Rightarrow> 'srv world \<Rightarrow> ((exn + byte list list) \<times> 'srv world) option" where
  "ray_get env [] refs w =
     (case those (map (result_of w) refs) of
        Some rs \<Rightarrow> Some (collect rs, w)
      | None \<Rightarrow> None)"
| "ray_get env (i # sched) refs w =
     (case those (map (result_of w) refs) of
        Some rs \<Rightarrow> Some (collect rs, w)
      | None \<Rightarrow> ray_get env sched refs (run_task env i w))"

text \<open>
  \<^verbatim>\<open>[generate_image.remote(prompt) for _ in range(NUM_IMAGES_PER_PROMPT)]\<close>, over the
  list of the range's values. Submitted tasks may start at once: \<open>bg k\<close> is what the
  runtime runs right after the submission numbered \<open>k\<close>.
\<close>

fun remote_each ::
  "'srv env \<Rightarrow> (nat \<Rightarrow> nat list) \<Rightarrow> string \<Rightarrow> nat list \<Rightarrow> 'srv world \<Rightarrow> nat list \<times> 'srv world" where
  "remote_each env bg prompt [] w = ([], w)"
| "remote_each env bg prompt (k # ks) w =
     (let (ref, w1) = ray_remote w prompt;
          w2 = run_tasks env (bg k) w1;
          (refs, w3) = remote_each env bg prompt ks w2
      in (ref # refs, w3))"

text \<open>
  \<^verbatim>\<open>
  images = ray.get(
      [generate_image.remote(prompt) for _ in range(NUM_IMAGES_PER_PROMPT)]
  )
  \<close>
\<close>

definition fan_out ::
  "'srv env \<Rightarrow> (nat \<Rightarrow> nat list) \<Rightarrow> nat list \<Rightarrow> string \<Rightarrow> 'srv world
     \<Rightarrow> ((exn + byte list list) \<times> 'srv world) option" where
  "fan_out env bg sched prompt w =
     (let (refs, w1) = remote_each env bg prompt [0..<nat (NUM_IMAGES_PER_PROMPT env)] w
      in ray_get env sched refs w1)"

text \<open>
  \<^verbatim>\<open>os.makedirs(dirname)\<close> raises when the directory is already there.
\<close>

definition os_makedirs :: "'srv world \<Rightarrow> string \<Rightarrow> (exn + unit) \<times> 'srv world" where
  "os_makedirs w dirname =
     (if dirname \<in> set (dirs w) then (Inl (FileExistsError dirname), w)
      else (Inr (), w\<lparr>dirs := dirs w @ [dirname],
                      journal := journal w @ [MakeDirs dirname]\<rparr>))"

text \<open>
  \<^verbatim>\<open>
  for i, image in enumerate(images):
      filename = os.path.join(dirname, f"{i}.png")
      with open(filename, "wb") as f:
          f.write(image)
      filenames.append(filename)
  \<close>
  The loop runs over the pairs of \<^verbatim>\<open>enumerate(images)\<close> and carries \<^verbatim>\<open>filenames\<close>.
\<close>

fun write_images ::
  "string \<Rightarrow> (nat \<times> byte list) list \<Rightarrow> string list \<Rightarrow> 'srv world \<Rightarrow> string list \<times> 'srv world" where
  "write_images dirname [] filenames w = (filenames, w)"
| "write_images dirname ((i, img) # rest) filenames w =
     (let filename = dirname @ ''/'' @ str_nat i @ ''.png'';
          w' = w\<lparr>files := files w @ [(filename, img)],
                 journal := journal w @ [WriteFile filename img]\<rparr>
      in write_images dirname rest (filenames @ [filename]) w')"

text \<open>What one round of the client's loop leaves in its local variables.\<close>

record batch =
  images :: "byte list list"
  filenames :: "string list"
  elapsed :: int

text \<open>
  One round of the loop of \<^verbatim>\<open>main\<close>, from taking the start time to recording the
  measurement; \<^verbatim>\<open>dirname\<close> is the fresh name drawn for the round. The round works on
  the world and on the list \<^verbatim>\<open>generation_times\<close>.
  \<^verbatim>\<open>
  start = time.time()
  images = ray.get(
      [generate_image.remote(prompt) for _ in range(NUM_IMAGES_PER_PROMPT)]
  )
  dirname = f"{uuid.uuid4().hex[:8]}"
  os.makedirs(dirname)
  filenames = []
  for i, image in enumerate(images):
      ...
  elapsed = time.time() - start
  generation_times.append(elapsed)
  \<close>
\<close>

definition main_round ::
  "'srv env \<Rightarrow> (nat \<Rightarrow> nat list) \<Rightarrow> nat list \<Rightarrow> string \<Rightarrow> string
     \<Rightarrow> 'srv world \<times> int list \<Rightarrow> ((exn + batch) \<times> 'srv world \<times> int list) option" where
  "main_round env bg sched dirname prompt st =
     (let (w, generation_times) = st;
          start = time_time env w
      in case fan_out env bg sched prompt w of
           None \<Rightarrow> None
         | Some (Inl e, w1) \<Rightarrow> Some (Inl e, w1, generation_times)
         | Some (Inr imgs, w1) \<Rightarrow>
             (case os_makedirs w1 dirname of
                (Inl e, w2) \<Rightarrow> Some (Inl e, w2, generation_times)
              | (Inr u, w2) \<Rightarrow>
                  (let (names, w3) = write_images dirname (enumerate 0 imgs) [] w2;
                       el = time_time env w3 - start
                   in Some (Inr \<lparr>images = imgs, filenames = names, elapsed = el\<rparr>,
                            w3, generation_times @ [el]))))"

section \<open>The replica pool\<close>

text \<open>
  Modelled from the spec: the Replica Pool / Dispatcher. The notebook only declares the
  deployment (\<^verbatim>\<open>@serve.deployment(num_replicas=NUM_REPLICAS)\<close>); the dispatcher that
  routes requests to replicas belongs to the serving framework and is not part of the
  sources at hand. The data model and the operations below follow the spec's sections
  3, 4.2, 5 and 7 sentence by sentence.

  "WorkRequest: { id, payload, parameters }", "WorkResult: { request_id, status:
  {Success, Failure}, value (on Success), error (on Failure) }", "Replica: { identity,
  loaded-resource handle, busy }"; the error kinds are those of the spec's taxonomy. The
  loaded resource is opaque and left out.
\<close>

datatype status = Success | Failure

datatype error_kind = ValidationError | ResourceInitError | ProcessingError | ShutdownError

record WorkRequest =
  ident :: nat
  payload :: string
  parameters :: "(string \<times> int) list"

record WorkResult =
  request_id :: nat
  status :: status
  result_value :: "byte list"
  error :: "(error_kind \<times> string) option"

record Replica =
  identity :: nat
  busy :: bool

text \<open>
  "Pool: { fixed-size ordered collection of Replicas, pending queue of WorkRequest,
  mapping from request id to the caller awaiting its WorkResult }". Callers are numbered.
  To these three fields the model adds what the spec speaks of without naming a field
  for it: which replica works on which request (\<open>in_flight\<close>), whether shutdown has begun,
  the identifier the next WorkRequest will get ("created by the Ingress Endpoint on each
  incoming call", "unique"), the identifiers of the accepted requests, and what has left
  the pool: the results delivered to callers, the results discarded because the caller was
  gone, and the errors reported for submissions that were not accepted.
\<close>

record Pool =
  replicas :: "Replica list"
  pending :: "WorkRequest list"
  awaiting :: "(nat \<times> nat) list"
  in_flight :: "(nat \<times> WorkRequest) list"
  shutting_down :: bool
  next_id :: nat
  accepted :: "nat list"
  delivered :: "(nat \<times> WorkResult) list"
  discarded :: "WorkResult list"
  refused :: "(nat \<times> WorkResult) list"

text \<open>
  What a replica's \<^verbatim>\<open>process\<close> call comes back with: the output, or an error
  ("on any internal failure returns a Failure WorkResult carrying a descriptive error").
\<close>

datatype outcome = Output "byte list" | Fault error_kind string

definition result_for :: "WorkRequest \<Rightarrow> outcome \<Rightarrow> WorkResult" where
  "result_for r out =
     (case out of
        Output v \<Rightarrow> \<lparr>request_id = ident r, status = Success, result_value = v, error = None\<rparr>
      | Fault k msg \<Rightarrow>
          \<lparr>request_id = ident r, status = Failure, result_value = [], error = Some (k, msg)\<rparr>)"

text \<open>
  What can happen to the pool: a call comes in (payload, parameters, caller, and the
  replica the dispatcher would like to pick), a replica finishes its request, a caller
  disconnects from the request it waits for, shutdown begins.
\<close>

datatype event =
    Submit string "(string \<times> int) list" nat nat
  | Finish nat outcome
  | Disconnect nat
  | Shutdown

text \<open>"Created at pool start-up": \<open>n\<close> idle replicas, nothing pending, nothing waited for.\<close>

definition init_pool :: "nat \<Rightarrow> Pool" where
  "init_pool n =
     \<lparr>replicas = map (\<lambda>k. \<lparr>identity = k, busy = False\<rparr>) [0..<n],
      pending = [], awaiting = [], in_flight = [], shutting_down = False, next_id = 0,
      accepted = [], delivered = [], discarded = [], refused = []\<rparr>"

text \<open>
  "Pick any currently idle Replica": the replica the dispatcher prefers if that one is
  idle, otherwise the first idle one; \<open>None\<close> when every replica is busy.
\<close>

fun first_idle :: "Replica list \<Rightarrow> nat \<Rightarrow> nat option" where
  "first_idle [] k = None"
| "first_idle (rep # reps) k = (if busy rep then first_idle reps (Suc k) else Some k)"

definition idle_replica :: "Pool \<Rightarrow> nat \<Rightarrow> nat option" where
  "idle_replica p k =
     (if k < length (replicas p) \<and> \<not> busy (replicas p ! k) then Some k
      else first_idle (replicas p) 0)"

text \<open>Replica \<open>k\<close> starts on request \<open>r\<close> and is busy from now on.\<close>

definition assign :: "Pool \<Rightarrow> nat \<Rightarrow> WorkRequest \<Rightarrow> Pool" where
  "assign p k r =
     p\<lparr>in_flight := in_flight p @ [(k, r)],
       replicas := (replicas p)[k := (replicas p ! k)\<lparr>busy := True\<rparr>]\<rparr>"

text \<open>
  A result leaves the pool: "WorkResults are delivered to the specific caller that
  submitted the matching WorkRequest"; "if a caller disconnects before its WorkResult is
  ready \<dots> the Dispatcher discards the result without blocking on an absent receiver".
\<close>

definition hand_over :: "Pool \<Rightarrow> WorkResult \<Rightarrow> Pool" where
  "hand_over p res =
     (case map_of (awaiting p) (request_id res) of
        Some c \<Rightarrow>
          p\<lparr>delivered := delivered p @ [(c, res)],
            awaiting := filter (\<lambda>(i, c'). i \<noteq> request_id res) (awaiting p)\<rparr>
      | None \<Rightarrow> p\<lparr>discarded := discarded p @ [res]\<rparr>)"

text \<open>
  \<^verbatim>\<open>submit\<close>. "ShutdownError (request arrived after shutdown began -- reported to caller,
  request not queued)". Otherwise the request is accepted: "pick any currently idle
  Replica \<dots> If no Replica is idle, the request waits in the pending queue in arrival
  order".
\<close>

definition submit :: "Pool \<Rightarrow> string \<Rightarrow> (string \<times> int) list \<Rightarrow> nat \<Rightarrow> nat \<Rightarrow> Pool" where
  "submit p pl ps c k =
     (let r = \<lparr>ident = next_id p, payload = pl, parameters = ps\<rparr>;
          p0 = p\<lparr>next_id := Suc (next_id p)\<rparr>
      in if shutting_down p
         then p0\<lparr>refused := refused p0 @
                    [(c, result_for r (Fault ShutdownError ''pool shutting down''))]\<rparr>
         else
           (let p1 = p0\<lparr>accepted := accepted p0 @ [ident r],
                        awaiting := awaiting p0 @ [(ident r, c)]\<rparr>
            in case idle_replica p1 k of
                 Some j \<Rightarrow> assign p1 j r
               | None \<Rightarrow> p1\<lparr>pending := pending p1 @ [r]\<rparr>))"

text \<open>
  "Every idle replica is eventually chosen if work is pending -- no idle replica starves
  while requests queue"; "requests are dispatched to replicas in the order they were
  submitted": an idle replica takes the head of the queue at once.
\<close>

definition dispatch_next :: "Pool \<Rightarrow> Pool" where
  "dispatch_next p =
     (case pending p of
        [] \<Rightarrow> p
      | r # rest \<Rightarrow>
          (case first_idle (replicas p) 0 of
             Some j \<Rightarrow> assign (p\<lparr>pending := rest\<rparr>) j r
           | None \<Rightarrow> p))"

text \<open>
  A replica's \<^verbatim>\<open>process\<close> call returns. "If a Replica's process call raises/returns
  Failure, the Dispatcher marks the replica idle again and delivers the Failure
  WorkResult to the caller -- it does not retry automatically and does not remove the
  replica from the pool"; a success is handed over in the same way.
\<close>

definition finish :: "Pool \<Rightarrow> nat \<Rightarrow> outcome \<Rightarrow> Pool" where
  "finish p k out =
     (case map_of (in_flight p) k of
        None \<Rightarrow> p
      | Some r \<Rightarrow>
          (let p1 = p\<lparr>in_flight := filter (\<lambda>(j, r'). j \<noteq> k) (in_flight p),
                       replicas := (replicas p)[k := (replicas p ! k)\<lparr>busy := False\<rparr>]\<rparr>
           in dispatch_next (hand_over p1 (result_for r out))))"

text \<open>A caller detaches from a request; the request itself stays where it is.\<close>

definition disconnect :: "Pool \<Rightarrow> nat \<Rightarrow> Pool" where
  "disconnect p i = p\<lparr>awaiting := filter (\<lambda>(i', c). i' \<noteq> i) (awaiting p)\<rparr>"

text \<open>
  "Pool shutdown: stops accepting new submissions, allows in-flight work to finish \<dots>;
  pending (not-yet-dispatched) requests are failed with a 'pool shutting down' error
  rather than silently discarded."
\<close>

definition shutdown :: "Pool \<Rightarrow> Pool" where
  "shutdown p =
     (fold (\<lambda>r q. hand_over q (result_for r (Fault ShutdownError ''pool shutting down'')))
        (pending p) p)
     \<lparr>pending := [], shutting_down := True\<rparr>"

fun apply_event :: "Pool \<Rightarrow> event \<Rightarrow> Pool" where
  "apply_event p (Submit pl ps c k) = submit p pl ps c k"
| "apply_event p (Finish k out) = finish p k out"
| "apply_event p (Disconnect i) = disconnect p i"
| "apply_event p Shutdown = shutdown p"

text \<open>The pool after a finite history, and after the first \<open>m\<close> events of an endless one.\<close>

definition run :: "Pool \<Rightarrow> event list \<Rightarrow> Pool" where
  "run p evs = foldl apply_event p evs"


text \<open>
  The WorkResults that have left the pool for a request, to a caller or not; and the
  places where the request can be while it has none: the queue, a replica.
\<close>

definition answers :: "Pool \<Rightarrow> nat \<Rightarrow> WorkResult list" where
  "answers p i = filter (\<lambda>res. request_id res = i) (map snd (delivered p) @ discarded p)"

definition queued :: "Pool \<Rightarrow> nat \<Rightarrow> WorkRequest list" where
  "queued p i = filter (\<lambda>r. ident r = i) (pending p)"

definition processing :: "Pool \<Rightarrow> nat \<Rightarrow> (nat \<times> WorkRequest) list" where
  "processing p i = filter (\<lambda>(k, r). ident r = i) (in_flight p)"


text \<open>
  What holds of the pool at every moment: the collection of replicas keeps its size, no
  replica works on two requests, the busy replicas are exactly those that work on a
  request, requests wait only while every replica is busy, and nothing waits once
  shutdown has begun.
\<close>

definition pool_inv :: "nat \<Rightarrow> Pool \<Rightarrow> bool" where
  "pool_inv n p \<longleftrightarrow>
     length (replicas p) = n \<and> distinct (map fst (in_flight p)) \<and>
     (\<forall>k<n. busy (replicas p ! k) \<longleftrightarrow> k \<in> fst ` set (in_flight p)) \<and>
     fst ` set (in_flight p) \<subseteq> {..<n} \<and>
     (pending p \<noteq> [] \<longrightarrow> (\<forall>k<n. busy (replicas p ! k))) \<and>
     (shutting_down p \<longrightarrow> pending p = [])"


definition delivered_for :: "Pool \<Rightarrow> nat \<Rightarrow> (nat \<times> WorkResult) list" where
  "delivered_for p i = filter (\<lambda>(c, res). request_id res = i) (delivered p)"




section \<open>Reading the journal\<close>



text \<open>The parameters \<^verbatim>\<open>generate_image\<close> sends, and what it returns for an answer.\<close>

definition query :: "'srv env \<Rightarrow> string \<Rightarrow> (string \<times> param) list" where
  "query env prompt = [(''prompt'', StrParam prompt), (''img_size'', IntParam (IMAGE_SIZE env))]"

definition task_value :: "exn + http_reply \<Rightarrow> exn + byte list" where
  "task_value resp = (case resp of Inl e \<Rightarrow> Inl e | Inr y \<Rightarrow> Inr (reply_content y))"

definition is_pending :: "'srv world \<Rightarrow> nat \<Rightarrow> bool" where
  "is_pending w i = (i < length (tasks w) \<and> snd (tasks w ! i) = None)"


section \<open>Example values\<close>

text \<open>
  A pipeline that returns one blank image of the size asked for, one that raises, and one
  that returns no image at all; an encoder that writes the image's data.
\<close>

definition blank_pipe :: "nat \<Rightarrow> string \<Rightarrow> int \<Rightarrow> int \<Rightarrow> exn + image list" where
  "blank_pipe n prompt h w = Inr [\<lparr>img_height = h, img_width = w, pixels = []\<rparr>]"



definition fresh_replica ::
  "(nat \<Rightarrow> string \<Rightarrow> int \<Rightarrow> int \<Rightarrow> exn + image list) \<Rightarrow> StableDiffusionV2" where
  "fresh_replica p = \<lparr>pipe = p, generate_calls = [], pipe_calls = []\<rparr>"

definition raw_save :: "image \<Rightarrow> string \<Rightarrow> exn + byte list" where
  "raw_save im fmt = Inr (pixels im)"



text \<open>
  A server that answers the request numbered \<open>n\<close> (in order of arrival) with the single
  byte \<open>n\<close>; every effect takes one tick. The notebook's settings are changed to ask
  for two images per prompt (or for none), and the runtime starts no task before the client
  waits for the results.
\<close>

definition counting_server :: "nat \<Rightarrow> string \<Rightarrow> (string \<times> param) list \<Rightarrow> (exn + http_reply) \<times> nat" where
  "counting_server n url req = (Inr \<lparr>reply_content = [of_nat n], status_code = 200\<rparr>, Suc n)"

definition two_images :: "nat env" where
  "two_images = (notebook_settings False counting_server (\<lambda>e. 1))\<lparr>NUM_IMAGES_PER_PROMPT := 2\<rparr>"


definition no_early_start :: "nat \<Rightarrow> nat list" where
  "no_early_start k = []"

definition fresh_world :: "nat world" where
  "fresh_world = \<lparr>server = 0, tasks = [], dirs = [], files = [], journal = []\<rparr>"

section \<open>The endpoint and the replica\<close>



text \<open>
  C4 (as stated). A size outside an allowed range is not rejected: with size \<open>-1\<close> the
  endpoint forwards the call to the replica, the pipeline is run with height and width
  \<open>-1\<close>, and the endpoint answers with an \<^verbatim>\<open>image/png\<close> response.
\<close>

theorem size_not_checked_counterexample:
  "APIIngress_generate raw_save \<lparr>handle = fresh_replica blank_pipe\<rparr> ''a'' (Some (- 1)) =
     (Inr \<lparr>content = [], media_type = ''image/png''\<rparr>,
      \<lparr>handle = \<lparr>pipe = blank_pipe, generate_calls = [(''a'', - 1)],
                  pipe_calls = [(''a'', - 1, - 1)]\<rparr>\<rparr>)"
  by (simp add: APIIngress_generate_def StableDiffusionV2_generate_def or_default_def
      fresh_replica_def blank_pipe_def raw_save_def Let_def)

text \<open>
  C4 (amended). The endpoint places no constraint on the size: for every non-empty prompt
  and every integer size, the call reaches the replica with that size, and the endpoint's
  answer is the replica's outcome passed through the encoder; no size makes the endpoint
  itself reject the request.
\<close>

theorem APIIngress_generate_any_size:
  "prompt \<noteq> [] \<Longrightarrow>
   generate_calls (handle (snd (APIIngress_generate image_save self prompt (Some img_size)))) =
     generate_calls (handle self) @ [(prompt, img_size)] \<and>
   fst (APIIngress_generate image_save self prompt (Some img_size)) =
     (case fst (StableDiffusionV2_generate (handle self) prompt (Some img_size)) of
        Inl e \<Rightarrow> Inl e
      | Inr im \<Rightarrow>
          (case image_save im ''PNG'' of
             Inl e \<Rightarrow> Inl e
           | Inr file_stream \<Rightarrow> Inr \<lparr>content = file_stream, media_type = ''image/png''\<rparr>))"
  by (auto simp add: APIIngress_generate_def StableDiffusionV2_generate_def or_default_def Let_def
      split: sum.splits list.splits prod.splits)

theorem APIIngress_generate_any_size_witness:
  "''a'' \<noteq> [] \<and>
   generate_calls (handle (snd (APIIngress_generate raw_save \<lparr>handle = fresh_replica blank_pipe\<rparr>
      ''a'' (Some 0)))) = [(''a'', 0)] \<and>
   fst (APIIngress_generate raw_save \<lparr>handle = fresh_replica blank_pipe\<rparr> ''a'' (Some 0)) =
     Inr \<lparr>content = [], media_type = ''image/png''\<rparr>"
  using APIIngress_generate_any_size [of "''a''" raw_save "\<lparr>handle = fresh_replica blank_pipe\<rparr>" 0]
  by (simp add: StableDiffusionV2_generate_def or_default_def fresh_replica_def blank_pipe_def
      raw_save_def Let_def)



text \<open>
  C9. Whenever the endpoint answers a request with a response, the body of the response is
  what the encoder wrote for the format \<^verbatim>\<open>PNG\<close> from the very image the replica returned
  for this prompt and size, and the content type is \<^verbatim>\<open>image/png\<close>.
\<close>

theorem APIIngress_generate_png:
  "APIIngress_generate image_save self prompt img_size = (Inr resp, self') \<Longrightarrow>
   \<exists>im. fst (StableDiffusionV2_generate (handle self) prompt (Some (or_default img_size 776))) = Inr im \<and>
        image_save im ''PNG'' = Inr (content resp) \<and> media_type resp = ''image/png''"
  by (auto simp add: APIIngress_generate_def Let_def split: sum.splits prod.splits if_splits)

theorem APIIngress_generate_png_witness:
  "fst (APIIngress_generate raw_save \<lparr>handle = fresh_replica blank_pipe\<rparr> ''a'' None) =
     Inr \<lparr>content = [], media_type = ''image/png''\<rparr> \<and>
   (\<exists>im. fst (StableDiffusionV2_generate (fresh_replica blank_pipe) ''a'' (Some 776)) = Inr im \<and>
         raw_save im ''PNG'' = Inr [] \<and> ''image/png'' = ''image/png'')"
proof -
  obtain self' where r: "APIIngress_generate raw_save \<lparr>handle = fresh_replica blank_pipe\<rparr> ''a'' None =
     (Inr \<lparr>content = [], media_type = ''image/png''\<rparr>, self')"
    by (simp add: APIIngress_generate_def StableDiffusionV2_generate_def or_default_def
      fresh_replica_def blank_pipe_def raw_save_def Let_def)
  from APIIngress_generate_png [OF r] r show ?thesis
    by (simp add: or_default_def)
qed



section \<open>The fan-out of the client\<close>

subsection \<open>Running tasks\<close>

lemma generate_image_journal:
  "generate_image env tid w prompt = (r, w') \<Longrightarrow>
   \<exists>resp. journal w' = journal w @ [HttpGet tid (endpoint env) (query env prompt) resp] \<and>
          r = task_value resp \<and>
          tasks w' = tasks w \<and> dirs w' = dirs w \<and> files w' = files w"
proof -
  assume g: "generate_image env tid w prompt = (r, w')"
  obtain resp srv where q: "requests_get env (server w) (endpoint env) (query env prompt) = (resp, srv)"
    by (cases "requests_get env (server w) (endpoint env) (query env prompt)")
  have "journal w' = journal w @ [HttpGet tid (endpoint env) (query env prompt) resp]"
    and "r = task_value resp" and "tasks w' = tasks w" and "dirs w' = dirs w" and "files w' = files w"
    using g q by (cases resp; simp add: generate_image_def query_def task_value_def Let_def; fastforce)+
  then show ?thesis by blast
qed

lemma run_task_idle:
  "\<not> is_pending w i \<Longrightarrow> run_task env i w = w"
  by (auto simp: run_task_def is_pending_def split: prod.splits option.splits)

lemma run_task_pending:
  assumes "is_pending w i"
  shows "\<exists>resp. journal (run_task env i w) =
            journal w @ [HttpGet i (endpoint env) (query env (fst (tasks w ! i))) resp] \<and>
          tasks (run_task env i w) =
            (tasks w)[i := (fst (tasks w ! i),
                            Some (task_value resp))] \<and>
          dirs (run_task env i w) = dirs w \<and> files (run_task env i w) = files w"
proof -
  obtain p where p: "tasks w ! i = (p, None)"
    using assms by (cases "tasks w ! i") (auto simp: is_pending_def)
  obtain r w' where g: "generate_image env i w p = (r, w')"
    by (cases "generate_image env i w p")
  from generate_image_journal [OF g] obtain resp where
    "journal w' = journal w @ [HttpGet i (endpoint env) (query env p) resp]"
    "r = task_value resp"
    "tasks w' = tasks w" "dirs w' = dirs w" "files w' = files w"
    by blast
  moreover have "run_task env i w = w'\<lparr>tasks := (tasks w')[i := (p, Some r)]\<rparr>"
    using assms p g by (simp add: run_task_def is_pending_def)
  ultimately show ?thesis using p by auto
qed


lemma run_task_length [simp]: "length (tasks (run_task env i w)) = length (tasks w)"
proof (cases "is_pending w i")
  case True
  from run_task_pending [OF True, of env] show ?thesis by auto
next
  case False
  then show ?thesis by (simp add: run_task_idle)
qed








lemma collect_map_Inr: "collect (map Inr vs) = Inr vs"
  by (induction vs) auto









subsection \<open>The results of a fan-out\<close>





lemma two_images_fields:
  "NUM_IMAGES_PER_PROMPT two_images = 2" "IMAGE_SIZE two_images = 776"
  "requests_get two_images = counting_server" "took two_images = (\<lambda>e. 1)"
  by (simp_all add: two_images_def notebook_settings_def)

lemma fan_out_two:
  "fan_out two_images no_early_start [1, 0] ''a'' fresh_world =
     Some (Inr [ [1], [0] ],
           \<lparr>server = 2, tasks = [(''a'', Some (Inr [1])), (''a'', Some (Inr [0]))],
            dirs = [], files = [],
            journal = [Remote 0 ''a'', Remote 1 ''a'',
              HttpGet 1 (endpoint two_images) (query two_images ''a'')
                (Inr \<lparr>reply_content = [0], status_code = 200\<rparr>),
              HttpGet 0 (endpoint two_images) (query two_images ''a'')
                (Inr \<lparr>reply_content = [1], status_code = 200\<rparr>)]\<rparr>)"
  by (simp add: fan_out_def two_images_fields upt_conv_Cons ray_remote_def run_tasks_def
    run_task_def generate_image_def no_early_start_def
    result_of_def counting_server_def fresh_world_def query_def Let_def)

lemma journal_fresh: "journal fresh_world = []"
  by (simp add: fresh_world_def)



subsection \<open>A round of the client's loop\<close>

lemma str_nat_small: "str_nat 0 = ''0''" "str_nat 1 = ''1''" "str_nat (Suc 0) = ''1''"
  by (simp_all add: str_nat.simps digit_def)

lemma write_images_journal:
  "write_images dirname xs names w = (names', w') \<Longrightarrow>
   journal w' = journal w @ map (\<lambda>(i, img). WriteFile (dirname @ ''/'' @ str_nat i @ ''.png'') img) xs \<and>
   names' = names @ map (\<lambda>(i, img). dirname @ ''/'' @ str_nat i @ ''.png'') xs \<and>
   files w' = files w @ map (\<lambda>(i, img). (dirname @ ''/'' @ str_nat i @ ''.png'', img)) xs \<and>
   dirs w' = dirs w \<and> tasks w' = tasks w"
proof (induction xs arbitrary: names w)
  case Nil
  then show ?case by simp
next
  case (Cons x xs)
  obtain i img where x: "x = (i, img)" by (cases x)
  from Cons.prems show ?case
    unfolding x by (simp add: Let_def) (drule Cons.IH, simp)
qed





text \<open>
  C8 (as stated). With two images and every effect lasting one tick, the results are all
  retrieved 4 ticks after the start, but the measurement the round records is 7: it also
  covers the work done after the last result was retrieved.
\<close>

theorem elapsed_counterexample:
  "map_option (snd \<circ> snd) (main_round two_images no_early_start [1, 0] ''d'' ''a'' (fresh_world, []))
     = Some [7] \<and>
   map_option (time_time two_images \<circ> snd) (fan_out two_images no_early_start [1, 0] ''a'' fresh_world)
     = Some 4 \<and>
   time_time two_images fresh_world = 0"
  by (simp add: main_round_def fan_out_two [simplified] os_makedirs_def enumerate_eq_zip upt_conv_Cons
      str_nat_small time_time_def two_images_fields journal_fresh Let_def)


text \<open>
  C8 (amended). A round that completes records exactly one measurement, the elapsed time
  of the round, and a round that raises records none. The measured interval starts before
  the requests are issued and ends after the last image file is written: on top of the
  time until the last result is retrieved it contains the creation of the directory and
  the writing of every image file.
\<close>

theorem main_round_elapsed:
  assumes "main_round env bg sched dirname prompt (w, ts) = Some (r, w', ts')"
  shows "case r of
           Inl e \<Rightarrow> ts' = ts
         | Inr b \<Rightarrow>
             ts' = ts @ [elapsed b] \<and>
             (\<exists>w1. fan_out env bg sched prompt w = Some (Inr (images b), w1) \<and>
                journal w' = journal w1 @ MakeDirs dirname #
                  map (\<lambda>(i, img). WriteFile (dirname @ ''/'' @ str_nat i @ ''.png'') img)
                    (enumerate 0 (images b)) \<and>
                elapsed b = (time_time env w1 - time_time env w) +
                  int (took env (MakeDirs dirname)) +
                  int (sum_list (map (\<lambda>(i, img).
                         took env (WriteFile (dirname @ ''/'' @ str_nat i @ ''.png'') img))
                       (enumerate 0 (images b)))))"
proof (cases "fan_out env bg sched prompt w")
  case None
  with assms show ?thesis by (simp add: main_round_def)
next
  case (Some a)
  obtain res w1 where a: "a = (res, w1)" by (cases a)
  show ?thesis
  proof (cases res)
    case (Inl e)
    with assms Some a show ?thesis by (auto simp: main_round_def)
  next
    case (Inr imgs)
    show ?thesis
    proof (cases "dirname \<in> set (dirs w1)")
      case True
      with assms Some a Inr show ?thesis by (auto simp: main_round_def os_makedirs_def)
    next
      case False
      let ?w2 = "w1\<lparr>dirs := dirs w1 @ [dirname], journal := journal w1 @ [MakeDirs dirname]\<rparr>"
      obtain names w3 where wr: "write_images dirname (enumerate 0 imgs) [] ?w2 = (names, w3)"
        by (cases "write_images dirname (enumerate 0 imgs) [] ?w2")
      from write_images_journal [OF wr] have
        j3: "journal w3 = journal ?w2 @
               map (\<lambda>(i, img). WriteFile (dirname @ ''/'' @ str_nat i @ ''.png'') img) (enumerate 0 imgs)"
        by simp
      let ?el = "time_time env w3 - time_time env w"
      have out: "r = Inr \<lparr>images = imgs, filenames = names, elapsed = ?el\<rparr>" "w' = w3"
        "ts' = ts @ [?el]"
        using assms Some a Inr False wr by (auto simp: main_round_def os_makedirs_def Let_def)
      have el: "?el = (time_time env w1 - time_time env w) +
                  int (took env (MakeDirs dirname)) +
                  int (sum_list (map (\<lambda>(i, img).
                         took env (WriteFile (dirname @ ''/'' @ str_nat i @ ''.png'') img))
                       (enumerate 0 imgs)))"
        by (simp add: time_time_def j3 comp_def case_prod_unfold)
      show ?thesis
        using out Some a Inr j3 el by simp
    qed
  qed
qed

lemma main_round_two:
  "main_round two_images no_early_start [1, 0] ''d'' ''a'' (fresh_world, []) =
     Some (Inr \<lparr>images = [ [1], [0] ], filenames = [''d/0.png'', ''d/1.png''], elapsed = 7\<rparr>,
           \<lparr>server = 2, tasks = [(''a'', Some (Inr [1])), (''a'', Some (Inr [0]))],
            dirs = [''d''], files = [(''d/0.png'', [1]), (''d/1.png'', [0])],
            journal = [Remote 0 ''a'', Remote 1 ''a'',
              HttpGet 1 (endpoint two_images) (query two_images ''a'')
                (Inr \<lparr>reply_content = [0], status_code = 200\<rparr>),
              HttpGet 0 (endpoint two_images) (query two_images ''a'')
                (Inr \<lparr>reply_content = [1], status_code = 200\<rparr>),
              MakeDirs ''d'', WriteFile ''d/0.png'' [1], WriteFile ''d/1.png'' [0]]\<rparr>,
           [7])"
  by (simp add: main_round_def fan_out_two [simplified] os_makedirs_def enumerate_eq_zip upt_conv_Cons
      str_nat_small time_time_def two_images_fields journal_fresh Let_def)

theorem main_round_elapsed_witness:
  "[7] = [] @ [7 :: int] \<and>
   (\<exists>w1. fan_out two_images no_early_start [1, 0] ''a'' fresh_world = Some (Inr [ [1], [0] ], w1) \<and>
      (7 :: int) = (time_time two_images w1 - time_time two_images fresh_world) +
        int (took two_images (MakeDirs ''d'')) +
        int (sum_list (map (\<lambda>(i, img). took two_images (WriteFile (''d'' @ ''/'' @ str_nat i @ ''.png'') img))
               (enumerate 0 [ [1], [0] ]))))"
  using main_round_elapsed [OF main_round_two] by auto

section \<open>The replica pool: what is in flight\<close>

lemma first_idle_Some:
  "first_idle reps k0 = Some j \<Longrightarrow> k0 \<le> j \<and> j < k0 + length reps \<and> \<not> busy (reps ! (j - k0))"
proof (induction reps arbitrary: k0)
  case Nil
  then show ?case by simp
next
  case (Cons rep reps)
  show ?case
  proof (cases "busy rep")
    case True
    with Cons.prems have "first_idle reps (Suc k0) = Some j" by simp
    from Cons.IH [OF this] show ?thesis by (auto simp: Suc_diff_le)
  next
    case False
    with Cons.prems show ?thesis by simp
  qed
qed

lemma first_idle_None: "first_idle reps k0 = None \<longleftrightarrow> (\<forall>rep\<in>set reps. busy rep)"
  by (induction reps arbitrary: k0) auto

lemma idle_replica_Some:
  "idle_replica p k = Some j \<Longrightarrow> j < length (replicas p) \<and> \<not> busy (replicas p ! j)"
  by (auto simp: idle_replica_def split: if_splits dest: first_idle_Some)

lemma idle_replica_None:
  "idle_replica p k = None \<longleftrightarrow> (\<forall>j<length (replicas p). busy (replicas p ! j))"
  by (auto simp: idle_replica_def first_idle_None all_set_conv_all_nth)

lemma hand_over_fields [simp]:
  "replicas (hand_over p res) = replicas p" "pending (hand_over p res) = pending p"
  "in_flight (hand_over p res) = in_flight p" "shutting_down (hand_over p res) = shutting_down p"
  "next_id (hand_over p res) = next_id p" "accepted (hand_over p res) = accepted p"
  "refused (hand_over p res) = refused p"
  by (simp_all add: hand_over_def split: option.splits)

lemma fold_hand_over_fields [simp]:
  "replicas (fold (\<lambda>r q. hand_over q (f r)) rs p) = replicas p"
  "pending (fold (\<lambda>r q. hand_over q (f r)) rs p) = pending p"
  "in_flight (fold (\<lambda>r q. hand_over q (f r)) rs p) = in_flight p"
  "shutting_down (fold (\<lambda>r q. hand_over q (f r)) rs p) = shutting_down p"
  "next_id (fold (\<lambda>r q. hand_over q (f r)) rs p) = next_id p"
  "accepted (fold (\<lambda>r q. hand_over q (f r)) rs p) = accepted p"
  "refused (fold (\<lambda>r q. hand_over q (f r)) rs p) = refused p"
  by (induction rs arbitrary: p; simp)+

lemma pool_inv_init: "pool_inv n (init_pool n)"
  by (simp add: pool_inv_def init_pool_def)

lemma pool_inv_assign:
  assumes "length (replicas p) = n" "distinct (map fst (in_flight p))"
    "\<forall>k<n. busy (replicas p ! k) \<longleftrightarrow> k \<in> fst ` set (in_flight p)"
    "fst ` set (in_flight p) \<subseteq> {..<n}" "j < n" "\<not> busy (replicas p ! j)"
  shows "length (replicas (assign p j r)) = n" "distinct (map fst (in_flight (assign p j r)))"
    "\<forall>k<n. busy (replicas (assign p j r) ! k) \<longleftrightarrow> k \<in> fst ` set (in_flight (assign p j r))"
    "fst ` set (in_flight (assign p j r)) \<subseteq> {..<n}"
    "pending (assign p j r) = pending p" "shutting_down (assign p j r) = shutting_down p"
  using assms by (auto simp: assign_def nth_list_update)

lemma pool_inv_submit: "pool_inv n p \<Longrightarrow> pool_inv n (submit p pl ps c k)"
proof -
  assume inv: "pool_inv n p"
  let ?r = "\<lparr>ident = next_id p, payload = pl, parameters = ps\<rparr>"
  show ?thesis
  proof (cases "shutting_down p")
    case True
    with inv show ?thesis by (simp add: submit_def pool_inv_def Let_def)
  next
    case False
    let ?p1 = "p\<lparr>next_id := Suc (next_id p), accepted := accepted p @ [next_id p],
                   awaiting := awaiting p @ [(next_id p, c)]\<rparr>"
    show ?thesis
    proof (cases "idle_replica ?p1 k")
      case None
      then have "\<forall>j<n. busy (replicas p ! j)"
        using inv by (simp add: idle_replica_None pool_inv_def)
      moreover have "submit p pl ps c k = ?p1\<lparr>pending := pending p @ [?r]\<rparr>"
        using False None by (simp add: submit_def Let_def)
      ultimately show ?thesis using inv False by (simp add: pool_inv_def)
    next
      case (Some j)
      from idle_replica_Some [OF Some] inv have j: "j < n" "\<not> busy (replicas ?p1 ! j)"
        by (simp_all add: pool_inv_def)
      then have "pending p = []" using inv by (auto simp: pool_inv_def)
      moreover have s: "submit p pl ps c k = assign ?p1 j ?r"
        using False Some by (simp add: submit_def Let_def)
      moreover note pool_inv_assign [of ?p1 n j ?r]
      ultimately show ?thesis using inv j False by (simp add: pool_inv_def)
    qed
  qed
qed


lemma map_of_in_flight:
  "distinct (map fst xs) \<Longrightarrow> map_of xs k = Some r \<longleftrightarrow> (k, r) \<in> set xs"
  by simp

lemma keys_filter_other:
  "fst ` set (filter (\<lambda>(j, r'). j \<noteq> k) xs) = fst ` set xs - {k}"
  by force

lemma pool_inv_finish: "pool_inv n p \<Longrightarrow> pool_inv n (finish p k out)"
proof -
  assume inv: "pool_inv n p"
  show ?thesis
  proof (cases "map_of (in_flight p) k")
    case None
    with inv show ?thesis by (simp add: finish_def)
  next
    case (Some r)
    then have kin: "k \<in> fst ` set (in_flight p)"
      by (metis domI dom_map_of_conv_image_fst)
    with inv have kn: "k < n" by (auto simp: pool_inv_def)
    let ?p1 = "p\<lparr>in_flight := filter (\<lambda>(j, r'). j \<noteq> k) (in_flight p),
                   replicas := (replicas p)[k := (replicas p ! k)\<lparr>busy := False\<rparr>]\<rparr>"
    let ?p2 = "hand_over ?p1 (result_for r out)"
    have f: "finish p k out = dispatch_next ?p2"
      using Some by (simp add: finish_def Let_def)
    have 1: "length (replicas ?p2) = n" "distinct (map fst (in_flight ?p2))"
      "fst ` set (in_flight ?p2) \<subseteq> {..<n}"
      using inv by (auto simp: pool_inv_def distinct_map_filter)
    have 2: "\<forall>j<n. busy (replicas ?p2 ! j) \<longleftrightarrow> j \<in> fst ` set (in_flight ?p2)"
      using inv kn by (auto simp: pool_inv_def nth_list_update keys_filter_other)
    have kidle: "\<not> busy (replicas ?p2 ! k)"
      using inv kn by (simp add: pool_inv_def)
    have sd: "shutting_down ?p2 \<longrightarrow> pending ?p2 = []"
      using inv by (simp add: pool_inv_def)
    show ?thesis
    proof (cases "pending ?p2")
      case Nil
      then have "dispatch_next ?p2 = ?p2" by (simp add: dispatch_next_def)
      with 1 2 Nil f show ?thesis by (simp add: pool_inv_def)
    next
      case (Cons r' rest)
      then have allbusy: "\<forall>j<n. busy (replicas p ! j)"
        using inv unfolding pool_inv_def by auto
      have "first_idle (replicas ?p2) 0 \<noteq> None"
        using kidle kn 1(1) by (auto simp: first_idle_None all_set_conv_all_nth simp del: hand_over_fields)
      then obtain j where j: "first_idle (replicas ?p2) 0 = Some j" by auto
      from first_idle_Some [OF j] 1(1) have jn: "j < n" and jidle: "\<not> busy (replicas ?p2 ! j)"
        by simp_all
      have jk: "j = k"
      proof (rule ccontr)
        assume "j \<noteq> k"
        with jidle jn allbusy show False by simp
      qed
      let ?p3 = "?p2\<lparr>pending := rest\<rparr>"
      have d: "dispatch_next ?p2 = assign ?p3 j r'"
        using Cons j by (simp add: dispatch_next_def)
      have a: "length (replicas (assign ?p3 j r')) = n"
        "distinct (map fst (in_flight (assign ?p3 j r')))"
        "\<forall>k<n. busy (replicas (assign ?p3 j r') ! k) \<longleftrightarrow> k \<in> fst ` set (in_flight (assign ?p3 j r'))"
        "fst ` set (in_flight (assign ?p3 j r')) \<subseteq> {..<n}"
        "pending (assign ?p3 j r') = pending ?p3" "shutting_down (assign ?p3 j r') = shutting_down ?p3"
        using pool_inv_assign [of ?p3 n j r'] 1 2 jn jidle by simp_all
      have b: "\<forall>i<n. busy (replicas (assign ?p3 j r') ! i)"
        using allbusy kn jk 1(1) by (auto simp: assign_def nth_list_update)
      have "\<not> shutting_down ?p2"
        using sd Cons by auto
      then have c: "\<not> shutting_down (assign ?p3 j r')"
        using a(6) by simp
      from a(1-4) b c show ?thesis
        unfolding f d pool_inv_def by blast
    qed
  qed
qed

lemma pool_inv_disconnect: "pool_inv n p \<Longrightarrow> pool_inv n (disconnect p i)"
  unfolding pool_inv_def disconnect_def by auto

lemma pool_inv_shutdown: "pool_inv n p \<Longrightarrow> pool_inv n (shutdown p)"
  unfolding pool_inv_def shutdown_def by auto

lemma pool_inv_apply_event: "pool_inv n p \<Longrightarrow> pool_inv n (apply_event p ev)"
  by (cases ev) (simp_all add: pool_inv_submit pool_inv_finish pool_inv_disconnect pool_inv_shutdown)

lemma pool_inv_run: "pool_inv n p \<Longrightarrow> pool_inv n (run p evs)"
  unfolding run_def by (induction evs arbitrary: p) (simp_all add: pool_inv_apply_event)

lemma pool_inv_length:
  assumes "pool_inv n p"
  shows "length (in_flight p) \<le> n"
proof -
  have "length (in_flight p) = card (fst ` set (in_flight p))"
    using assms by (metis pool_inv_def distinct_card length_map set_map)
  also have "\<dots> \<le> card {..<n}"
    using assms by (intro card_mono) (simp_all add: pool_inv_def)
  finally show ?thesis by simp
qed

lemma pool_inv_full:
  assumes "pool_inv n p" "length (in_flight p) = n"
  shows "\<forall>k<n. busy (replicas p ! k)"
proof -
  have "card (fst ` set (in_flight p)) = n"
    using assms by (metis pool_inv_def distinct_card length_map set_map)
  moreover have "fst ` set (in_flight p) \<subseteq> {..<n}"
    using assms by (simp add: pool_inv_def)
  ultimately have "fst ` set (in_flight p) = {..<n}"
    by (simp add: card_subset_eq)
  with assms show ?thesis by (simp add: pool_inv_def)
qed

text \<open>
  C1. A pool started with \<open>n\<close> replicas never has more than \<open>n\<close> requests in flight,
  whatever is submitted, finished, disconnected or shut down, and in whatever order; no
  replica works on two requests at a time. A submission that arrives while \<open>n\<close> requests
  are in flight leaves them as they are and joins the end of the pending queue.
\<close>

theorem at_most_pool_size_in_flight:
  "length (in_flight (run (init_pool n) evs)) \<le> n \<and>
   distinct (map fst (in_flight (run (init_pool n) evs))) \<and>
   (length (in_flight (run (init_pool n) evs)) = n \<and> \<not> shutting_down (run (init_pool n) evs) \<longrightarrow>
      in_flight (run (init_pool n) (evs @ [Submit pl ps c k])) = in_flight (run (init_pool n) evs) \<and>
      pending (run (init_pool n) (evs @ [Submit pl ps c k])) =
        pending (run (init_pool n) evs) @
          [\<lparr>ident = next_id (run (init_pool n) evs), payload = pl, parameters = ps\<rparr>])"
proof -
  let ?p = "run (init_pool n) evs"
  have inv: "pool_inv n ?p" by (simp add: pool_inv_run pool_inv_init)
  have 1: "length (in_flight ?p) \<le> n" using inv by (rule pool_inv_length)
  have 2: "distinct (map fst (in_flight ?p))" using inv by (simp add: pool_inv_def)
  have 3: "in_flight (run (init_pool n) (evs @ [Submit pl ps c k])) = in_flight ?p \<and>
      pending (run (init_pool n) (evs @ [Submit pl ps c k])) =
        pending ?p @ [\<lparr>ident = next_id ?p, payload = pl, parameters = ps\<rparr>]"
    if full: "length (in_flight ?p) = n" and acc: "\<not> shutting_down ?p"
  proof -
    from pool_inv_full [OF inv full] inv have "\<forall>j<length (replicas ?p). busy (replicas ?p ! j)"
      by (simp add: pool_inv_def)
    then have "idle_replica (?p\<lparr>next_id := Suc (next_id ?p), accepted := accepted ?p @ [next_id ?p],
                   awaiting := awaiting ?p @ [(next_id ?p, c)]\<rparr>) k = None"
      by (simp add: idle_replica_None)
    then show ?thesis
      using acc by (simp add: run_def submit_def Let_def)
  qed
  from 1 2 3 show ?thesis by blast
qed


lemma two_submitted:
  "run (init_pool 2) [Submit ''A'' [] 7 0, Submit ''A'' [] 7 0] =
     \<lparr>replicas = [\<lparr>identity = 0, busy = True\<rparr>, \<lparr>identity = 1, busy = True\<rparr>],
      pending = [], awaiting = [(0, 7), (1, 7)],
      in_flight = [(0, \<lparr>ident = 0, payload = ''A'', parameters = []\<rparr>),
                   (1, \<lparr>ident = 1, payload = ''A'', parameters = []\<rparr>)],
      shutting_down = False, next_id = 2, accepted = [0, 1],
      delivered = [], discarded = [], refused = []\<rparr>"
  by (simp add: run_def init_pool_def submit_def idle_replica_def assign_def upt_conv_Cons Let_def)

theorem at_most_pool_size_in_flight_witness:
  "length (in_flight (run (init_pool 2) [Submit ''A'' [] 7 0, Submit ''A'' [] 7 0])) = 2 \<and>
   \<not> shutting_down (run (init_pool 2) [Submit ''A'' [] 7 0, Submit ''A'' [] 7 0]) \<and>
   in_flight (run (init_pool 2) ([Submit ''A'' [] 7 0, Submit ''A'' [] 7 0] @ [Submit ''A'' [] 7 0])) =
     [(0, \<lparr>ident = 0, payload = ''A'', parameters = []\<rparr>),
      (1, \<lparr>ident = 1, payload = ''A'', parameters = []\<rparr>)] \<and>
   pending (run (init_pool 2) ([Submit ''A'' [] 7 0, Submit ''A'' [] 7 0] @ [Submit ''A'' [] 7 0])) =
     [\<lparr>ident = 2, payload = ''A'', parameters = []\<rparr>]"
  using at_most_pool_size_in_flight
    [of 2 "[Submit ''A'' [] 7 0, Submit ''A'' [] 7 0]" "''A''" "[]" 7 0]
  by (simp add: two_submitted)

section \<open>The replica pool: every request in one place\<close>







lemma hand_over_queued [simp]:
  "queued (hand_over p res) i = queued p i" "processing (hand_over p res) i = processing p i"
  by (simp_all add: queued_def processing_def)


lemma assign_fields [simp]:
  "pending (assign p j r) = pending p" "awaiting (assign p j r) = awaiting p"
  "shutting_down (assign p j r) = shutting_down p" "next_id (assign p j r) = next_id p"
  "accepted (assign p j r) = accepted p" "delivered (assign p j r) = delivered p"
  "discarded (assign p j r) = discarded p" "refused (assign p j r) = refused p"
  "in_flight (assign p j r) = in_flight p @ [(j, r)]"
  by (simp_all add: assign_def)

lemma assign_views [simp]:
  "answers (assign p j r) i = answers p i" "delivered_for (assign p j r) i = delivered_for p i"
  "queued (assign p j r) i = queued p i"
  "processing (assign p j r) i = processing p i @ (if ident r = i then [(j, r)] else [])"
  by (simp_all add: answers_def delivered_for_def queued_def processing_def)

lemma dispatch_next_fields [simp]:
  "awaiting (dispatch_next p) = awaiting p"
  "shutting_down (dispatch_next p) = shutting_down p" "next_id (dispatch_next p) = next_id p"
  "accepted (dispatch_next p) = accepted p" "delivered (dispatch_next p) = delivered p"
  "discarded (dispatch_next p) = discarded p" "refused (dispatch_next p) = refused p"
  by (simp_all add: dispatch_next_def split: list.splits option.splits)

lemma dispatch_next_views [simp]:
  "answers (dispatch_next p) i = answers p i" "delivered_for (dispatch_next p) i = delivered_for p i"
  by (simp_all add: answers_def delivered_for_def)

















section \<open>The replica pool: what one event does\<close>










section \<open>The replica pool: every accepted request is answered\<close>










subsection \<open>Delivery to the caller\<close>













subsection \<open>Two histories\<close>










end
